theory Spec2Isabelle
  imports
    Main
    "HOL-Library.Multiset"
    "HOL-Library.Sublist"
    "HOL-Library.Char_ord"
    "HOL-Library.List_Lexorder"
begin

section \<open>The pre-join API of \<open>server.py\<close>\<close>

text \<open>
  A shallow embedding of \<open>src/server.py\<close>: the table \<open>prejoin_submissions\<close>, the
  handlers \<open>create_prejoin\<close>, \<open>list_prejoin\<close>, \<open>export_prejoin_csv\<close> and
  \<open>send_test_email\<close>, and the notifier \<open>_send_confirmation_email\<close> (an Isabelle name
  cannot start with an underscore, so it is \<open>send_confirmation_email\<close> here).

  What lies outside the source file is a parameter of the model: the clock, the SMTP
  transport and the thread scheduler are values the handlers receive, and the order in
  which the database engine returns rows with equal \<open>created_at\<close> is a function the
  query handlers receive. Text is modelled as \<open>string\<close> with one \<open>char\<close> per character:
  the characters are the code points below 256, and white space and letter case are
  Python's on that range. Integers are unbounded, as Python's are, and the only fault of
  the storage that is modelled is the violation of the \<open>UNIQUE\<close> constraint, the one the
  handler catches.
\<close>

subsection \<open>Text: \<open>str.strip()\<close> and \<open>str.lower()\<close>\<close>

text \<open>
  The white space of \<open>str.strip()\<close>: tab to carriage return, the four separators
  \<open>0x1C\<close> to \<open>0x1F\<close>, the blank, next line (\<open>0x85\<close>) and the no-break space (\<open>0xA0\<close>).
\<close>

definition isspace :: "char \<Rightarrow> bool" where
  "isspace c \<longleftrightarrow>
     c \<in> set [CHR 0x09, CHR 0x0A, CHR 0x0B, CHR 0x0C, CHR 0x0D,
              CHR 0x1C, CHR 0x1D, CHR 0x1E, CHR 0x1F, CHR '' '', CHR 0x85, CHR 0xA0]"

definition strip :: "string \<Rightarrow> string" where
  "strip s = rev (dropWhile isspace (rev (dropWhile isspace s)))"

text \<open>
  \<open>str.lower()\<close> folds the letters \<open>A\<close> to \<open>Z\<close> and the capital letters \<open>0xC0\<close> to \<open>0xDE\<close>
  (all but the sign \<open>0xD7\<close>), each to the character 32 places above it.
\<close>

definition lower_char :: "char \<Rightarrow> char" where
  "lower_char c =
     (case map_of
         (zip (''ABCDEFGHIJKLMNOPQRSTUVWXYZ'' @
               [CHR 0xC0, CHR 0xC1, CHR 0xC2, CHR 0xC3, CHR 0xC4, CHR 0xC5, CHR 0xC6, CHR 0xC7,
                CHR 0xC8, CHR 0xC9, CHR 0xCA, CHR 0xCB, CHR 0xCC, CHR 0xCD, CHR 0xCE, CHR 0xCF,
                CHR 0xD0, CHR 0xD1, CHR 0xD2, CHR 0xD3, CHR 0xD4, CHR 0xD5, CHR 0xD6,
                CHR 0xD8, CHR 0xD9, CHR 0xDA, CHR 0xDB, CHR 0xDC, CHR 0xDD, CHR 0xDE])
              (''abcdefghijklmnopqrstuvwxyz'' @
               [CHR 0xE0, CHR 0xE1, CHR 0xE2, CHR 0xE3, CHR 0xE4, CHR 0xE5, CHR 0xE6, CHR 0xE7,
                CHR 0xE8, CHR 0xE9, CHR 0xEA, CHR 0xEB, CHR 0xEC, CHR 0xED, CHR 0xEE, CHR 0xEF,
                CHR 0xF0, CHR 0xF1, CHR 0xF2, CHR 0xF3, CHR 0xF4, CHR 0xF5, CHR 0xF6,
                CHR 0xF8, CHR 0xF9, CHR 0xFA, CHR 0xFB, CHR 0xFC, CHR 0xFD, CHR 0xFE])) c of
        Some l \<Rightarrow> l
      | None \<Rightarrow> c)"

definition lower :: "string \<Rightarrow> string" where
  "lower s = map lower_char s"

text \<open>Python's truth value of an optional string: \<open>None\<close> and \<open>""\<close> are false.\<close>

definition truthy :: "string option \<Rightarrow> bool" where
  "truthy v = (case v of None \<Rightarrow> False | Some s \<Rightarrow> s \<noteq> [])"

subsection \<open>The table \<open>prejoin_submissions\<close>\<close>

text \<open>
  One record per row, a field per column. The columns declared \<open>NOT NULL\<close> hold a
  value, \<open>user_agent\<close> and \<open>ip\<close> may hold \<open>NULL\<close> (\<open>None\<close>). The table is the list of
  its rows in rowid order, with the counter that \<open>AUTOINCREMENT\<close> keeps.
\<close>

record row =
  col_id :: int
  col_full_name :: string
  col_email :: string
  col_consent :: int
  col_created_at :: string
  col_user_agent :: "string option"
  col_ip :: "string option"

record db =
  table_rows :: "row list"
  seq :: int

definition empty_db :: db where
  "empty_db = \<lparr>table_rows = [], seq = 0\<rparr>"

text \<open>\<open>CREATE TABLE IF NOT EXISTS\<close>: an absent table is created empty, a present one is kept.\<close>

definition on_startup :: "db option \<Rightarrow> db" where
  "on_startup file = (case file of None \<Rightarrow> empty_db | Some d \<Rightarrow> d)"

datatype sql_error = IntegrityError string

text \<open>The rowid of \<open>INTEGER PRIMARY KEY AUTOINCREMENT\<close>: one more than the largest ever used.\<close>

definition next_rowid :: "db \<Rightarrow> int" where
  "next_rowid d = fold max (map col_id (table_rows d)) (seq d) + 1"

text \<open>
  The \<open>INSERT\<close> statement with its commit. The \<open>UNIQUE\<close> constraint on \<open>email\<close> compares
  the stored text exactly; a violation raises \<open>sqlite3.IntegrityError\<close> and leaves the
  table as it was.
\<close>

definition db_insert ::
  "db \<Rightarrow> string \<Rightarrow> string \<Rightarrow> int \<Rightarrow> string \<Rightarrow> string option \<Rightarrow> string option \<Rightarrow> sql_error + db" where
  "db_insert d name mail c created ua addr =
     (if mail \<in> set (map col_email (table_rows d))
      then Inl (IntegrityError ''UNIQUE constraint failed: prejoin_submissions.email'')
      else
        let i = next_rowid d in
        Inr \<lparr>table_rows = table_rows d @
               [\<lparr>col_id = i, col_full_name = name, col_email = mail, col_consent = c,
                 col_created_at = created, col_user_agent = ua, col_ip = addr\<rparr>],
             seq = i\<rparr>)"

subsection \<open>Requests and responses\<close>

record PrejoinPayload =
  fullName :: string
  email :: string
  consent :: bool

text \<open>
  \<open>constr(min_length=3)\<close> bounds the length of \<open>fullName\<close> as it was sent. The syntax
  check of \<open>EmailStr\<close> belongs to the validation library and constrains nothing here:
  \<open>email\<close> is the text the handler receives.
\<close>

definition PrejoinPayload_ok :: "PrejoinPayload \<Rightarrow> bool" where
  "PrejoinPayload_ok data \<longleftrightarrow> 3 \<le> length (fullName data)"

record request =
  header_user_agent :: "string option"
  client_host :: "string option"

datatype http_error = HTTPException int string | RequestValidationError

datatype ok_body = Ok_True

subsection \<open>The notifier\<close>

text \<open>
  A raised Python exception is \<open>Exn\<close> with its \<open>str(e)\<close>. The environment of one
  delivery attempt: the outcome of \<open>int(os.environ.get("SMTP_PORT", "1025"))\<close>, the
  variables \<open>SMTP_TLS\<close>, \<open>SMTP_USER\<close> and \<open>SMTP_PASS\<close>, and for each call to the
  transport whether it raises. The trace lists the calls that went through.
\<close>

datatype exn = Exn string

datatype smtp_event = Connected | Tls_started | Logged_in | Sent string string

record smtp_env =
  SMTP_PORT :: "exn + int"
  SMTP_TLS :: "string option"
  SMTP_USER :: "string option"
  SMTP_PASS :: "string option"
  connect_raises :: "exn option"
  starttls_raises :: "exn option"
  login_raises :: "exn option"
  send_message_raises :: "exn option"

definition use_tls :: "smtp_env \<Rightarrow> bool" where
  "use_tls env \<longleftrightarrow>
     lower (case SMTP_TLS env of None \<Rightarrow> ''true'' | Some v \<Rightarrow> v)
       \<in> set [''1'', ''true'', ''yes'', ''on'']"

text \<open>\<open>smtp.starttls()\<close> and \<open>smtp.login(user, password)\<close>, each in its own \<open>try\<close> whose handler is \<open>pass\<close>.\<close>

definition try_starttls :: "smtp_env \<Rightarrow> int \<Rightarrow> smtp_event list" where
  "try_starttls env port =
     (if use_tls env \<and> port \<in> set [587, 25]
      then (case starttls_raises env of Some e \<Rightarrow> [] | None \<Rightarrow> [Tls_started])
      else [])"

definition try_login :: "smtp_env \<Rightarrow> smtp_event list" where
  "try_login env =
     (if truthy (SMTP_USER env) \<and> truthy (SMTP_PASS env)
      then (case login_raises env of Some e \<Rightarrow> [] | None \<Rightarrow> [Logged_in])
      else [])"

text \<open>The body of the outer \<open>try\<close>: the first exception of the connection or of the send leaves it.\<close>

definition smtp_session :: "smtp_env \<Rightarrow> int \<Rightarrow> string \<Rightarrow> string \<Rightarrow> (exn + unit) \<times> smtp_event list" where
  "smtp_session env port to_email full_name =
     (case connect_raises env of
        Some e \<Rightarrow> (Inl e, [])
      | None \<Rightarrow>
          let tr = [Connected] @ try_starttls env port @ try_login env in
          (case send_message_raises env of
             Some e \<Rightarrow> (Inl e, tr)
           | None \<Rightarrow> (Inr (), tr @ [Sent to_email full_name])))"

text \<open>
  \<open>_send_confirmation_email\<close>: the port is read before the \<open>try\<close>, so a port that does
  not parse raises; whatever the session raises is caught by \<open>except Exception: pass\<close>.
\<close>

definition send_confirmation_email :: "smtp_env \<Rightarrow> string \<Rightarrow> string \<Rightarrow> (exn + unit) \<times> smtp_event list" where
  "send_confirmation_email env to_email full_name =
     (case SMTP_PORT env of
        Inl e \<Rightarrow> (Inl e, [])
      | Inr port \<Rightarrow>
          (case smtp_session env port to_email full_name of
             (Inl e, tr) \<Rightarrow> (Inr (), tr)
           | (Inr u, tr) \<Rightarrow> (Inr (), tr)))"

text \<open>The default recipient name of the test endpoint, as its UTF-8 bytes.\<close>

definition default_name :: string where
  "default_name =
     ''De'' @ [CHR 0xC4, CHR 0x9F] @ ''erli Kullan'' @ [CHR 0xC4, CHR 0xB1] @ ''c'' @ [CHR 0xC4, CHR 0xB1]"

definition send_test_email :: "smtp_env \<Rightarrow> string \<Rightarrow> string option \<Rightarrow> (http_error + ok_body) \<times> smtp_event list" where
  "send_test_email env to name =
     (case send_confirmation_email env to (case name of None \<Rightarrow> default_name | Some n \<Rightarrow> if n = [] then default_name else n) of
        (Inr u, tr) \<Rightarrow> (Inr Ok_True, tr)
      | (Inl (Exn msg), tr) \<Rightarrow> (Inl (HTTPException 500 msg), tr))"

subsection \<open>The clock: \<open>datetime.utcnow().isoformat()\<close>\<close>

text \<open>
  A reading of the clock, and the text \<open>isoformat()\<close> gives for it: the date and the time
  of day in fields of fixed width, and the microseconds, six digits after a point, only
  when they are not zero. \<open>zero_pad w n\<close> is the number \<open>n\<close> in \<open>w\<close> digits, for a
  number that fits. \<open>dt_key\<close> lists the fields from the year down: one reading is before
  another when its list is the smaller.
\<close>

record datetime =
  dt_year :: nat
  dt_month :: nat
  dt_day :: nat
  dt_hour :: nat
  dt_minute :: nat
  dt_second :: nat
  dt_microsecond :: nat


definition digit_char :: "nat \<Rightarrow> char" where
  "digit_char d = ''0123456789'' ! (d mod 10)"

fun zero_pad :: "nat \<Rightarrow> nat \<Rightarrow> string" where
  "zero_pad 0 n = []"
| "zero_pad (Suc w) n = zero_pad w (n div 10) @ [digit_char n]"

definition isoformat :: "datetime \<Rightarrow> string" where
  "isoformat t =
     zero_pad 4 (dt_year t) @ ''-'' @ zero_pad 2 (dt_month t) @ ''-'' @ zero_pad 2 (dt_day t) @
     ''T'' @ zero_pad 2 (dt_hour t) @ '':'' @ zero_pad 2 (dt_minute t) @ '':'' @
     zero_pad 2 (dt_second t) @
     (if dt_microsecond t = 0 then [] else ''.'' @ zero_pad 6 (dt_microsecond t))"


subsection \<open>Intake: \<open>POST /api/prejoin\<close>\<close>

text \<open>
  The world of the detached notification: whether \<open>Thread(...).start()\<close> raises, and the
  environment the thread would run in. The handler also receives the clock reading
  \<open>datetime.utcnow().isoformat()\<close>. It returns the response, the table and the trace
  of the notification.
\<close>

record notifier_world =
  thread_start_raises :: "exn option"
  smtp :: smtp_env

definition detached_notification :: "notifier_world \<Rightarrow> string \<Rightarrow> string \<Rightarrow> smtp_event list" where
  "detached_notification w to_email full_name =
     (case thread_start_raises w of
        Some e \<Rightarrow> []
      | None \<Rightarrow> snd (send_confirmation_email (smtp w) to_email full_name))"

definition create_prejoin ::
  "notifier_world \<Rightarrow> string \<Rightarrow> db \<Rightarrow> PrejoinPayload \<Rightarrow> request \<Rightarrow> (http_error + ok_body) \<times> db \<times> smtp_event list" where
  "create_prejoin w utcnow d data req =
     (if \<not> consent data then (Inl (HTTPException 400 ''Consent required''), d, [])
      else
        (case db_insert d
                (strip (fullName data))
                (strip (lower (email data)))
                (if consent data then 1 else 0)
                (utcnow @ ''Z'')
                (Some (case header_user_agent req of None \<Rightarrow> [] | Some ua \<Rightarrow> ua))
                (client_host req) of
           Inl (IntegrityError m) \<Rightarrow> (Inl (HTTPException 409 ''Email already registered''), d, [])
         | Inr d' \<Rightarrow> (Inr Ok_True, d', detached_notification w (email data) (fullName data))))"

text \<open>The route: a body that fails \<open>PrejoinPayload\<close> is refused before the handler runs.\<close>

definition post_api_prejoin ::
  "notifier_world \<Rightarrow> string \<Rightarrow> db \<Rightarrow> PrejoinPayload \<Rightarrow> request \<Rightarrow> (http_error + ok_body) \<times> db \<times> smtp_event list" where
  "post_api_prejoin w utcnow d data req =
     (if PrejoinPayload_ok data then create_prejoin w utcnow d data req
      else (Inl RequestValidationError, d, []))"

subsection \<open>Search: the \<open>LIKE\<close> operator of the \<open>WHERE\<close> clause\<close>

text \<open>
  \<open>like pattern text\<close> is the comparison SQLite makes for \<open>text LIKE pattern\<close> with no
  \<open>ESCAPE\<close> clause: \<open>%\<close> matches any run of characters, \<open>_\<close> any one character, and
  every other character matches itself, the letters \<open>A\<close> to \<open>Z\<close> folded to lower case and
  no other letter folded.
\<close>

definition sqlite_tolower :: "char \<Rightarrow> char" where
  "sqlite_tolower c =
     (case map_of (zip ''ABCDEFGHIJKLMNOPQRSTUVWXYZ'' ''abcdefghijklmnopqrstuvwxyz'') c of
        Some l \<Rightarrow> l
      | None \<Rightarrow> c)"

fun like :: "string \<Rightarrow> string \<Rightarrow> bool" where
  "like [] [] = True"
| "like [] (c # cs) = False"
| "like (p # ps) [] = (p = CHR ''%'' \<and> like ps [])"
| "like (p # ps) (c # cs) =
     (if p = CHR ''%'' then like ps (c # cs) \<or> like (p # ps) cs
      else (p = CHR ''_'' \<or> sqlite_tolower p = sqlite_tolower c) \<and> like ps cs)"

text \<open>
  The engine reads the pattern and the text as strings that end at the first NUL
  character: what follows a NUL takes no part in the comparison.
\<close>

definition c_string :: "string \<Rightarrow> string" where
  "c_string s = takeWhile (\<lambda>c. c \<noteq> CHR 0x00) s"

definition sqlite_like :: "string \<Rightarrow> string \<Rightarrow> bool" where
  "sqlite_like pat s = like (c_string pat) (c_string s)"

text \<open>\<open>search = (q or "").strip()\<close>\<close>

definition search_term :: "string option \<Rightarrow> string" where
  "search_term q = strip (case q of None \<Rightarrow> [] | Some s \<Rightarrow> s)"

text \<open>
  With an empty \<open>search\<close> the statement has no \<open>WHERE\<close> clause; otherwise it is
  \<open>WHERE full_name LIKE ? OR email LIKE ?\<close>, both parameters bound to \<open>%search%\<close>.
\<close>

definition where_clause :: "string \<Rightarrow> row \<Rightarrow> bool" where
  "where_clause search r =
     (if search = [] then True
      else
        let pat = ''%'' @ search @ ''%'' in
        sqlite_like pat (col_full_name r) \<or> sqlite_like pat (col_email r))"

text \<open>
  The search of the specification, in its words: the term is a substring of \<open>fullName\<close>
  or of \<open>email\<close>, upper and lower case not distinguished.
\<close>

definition spec_search_matches :: "string \<Rightarrow> row \<Rightarrow> bool" where
  "spec_search_matches term r \<longleftrightarrow>
     sublist (lower term) (lower (col_full_name r)) \<or> sublist (lower term) (lower (col_email r))"

text \<open>
  Two readings of the statement's filter, for a term and a row without NUL characters:
  the pattern \<open>%term%\<close> matched against the name or the email, and the term as a
  substring of the name or of the email with only the letters \<open>A\<close> to \<open>Z\<close> folded.
\<close>

definition nul_free :: "string \<Rightarrow> bool" where
  "nul_free s \<longleftrightarrow> CHR 0x00 \<notin> set s"

definition like_search_matches :: "string \<Rightarrow> row \<Rightarrow> bool" where
  "like_search_matches term r \<longleftrightarrow>
     like (''%'' @ term @ ''%'') (col_full_name r) \<or> like (''%'' @ term @ ''%'') (col_email r)"

definition ascii_search_matches :: "string \<Rightarrow> row \<Rightarrow> bool" where
  "ascii_search_matches term r \<longleftrightarrow>
     sublist (map sqlite_tolower term) (map sqlite_tolower (col_full_name r)) \<or>
     sublist (map sqlite_tolower term) (map sqlite_tolower (col_email r))"

subsection \<open>Listing and export\<close>

text \<open>
  \<open>ORDER BY created_at DESC\<close> names one sort key, compared as text. The engine decides
  the order of rows whose keys are equal, so the handlers take the engine's ordering
  \<open>ob\<close> of the selected rows as a parameter; \<open>order_by_ok\<close> says what every engine
  guarantees: the same rows, in descending order of the key.
\<close>

definition created_at_desc :: "row list \<Rightarrow> bool" where
  "created_at_desc rs = sorted_wrt (\<lambda>a b. col_created_at b \<le> col_created_at a) rs"

definition order_by_ok :: "(row list \<Rightarrow> row list) \<Rightarrow> bool" where
  "order_by_ok ob \<longleftrightarrow> (\<forall>rs. mset (ob rs) = mset rs \<and> created_at_desc (ob rs))"

text \<open>One such engine: a stable sort of the rows as scanned in rowid order.\<close>

definition scan_order_sort :: "row list \<Rightarrow> row list" where
  "scan_order_sort rs = rev (sort_key col_created_at (rev rs))"

text \<open>\<open>LIMIT ? OFFSET ?\<close>: a negative limit is no limit, a negative offset is none.\<close>

definition sql_limit_offset :: "int \<Rightarrow> int \<Rightarrow> row list \<Rightarrow> row list" where
  "sql_limit_offset lim off rs =
     (let r = drop (nat off) rs in if lim < 0 then r else take (nat lim) r)"

text \<open>The three statements: the count, the page and the unpaginated selection.\<close>

definition select_count :: "db \<Rightarrow> string \<Rightarrow> int" where
  "select_count d search = int (length (filter (where_clause search) (table_rows d)))"

definition select_page :: "(row list \<Rightarrow> row list) \<Rightarrow> db \<Rightarrow> string \<Rightarrow> int \<Rightarrow> int \<Rightarrow> row list" where
  "select_page ob d search lim off =
     sql_limit_offset lim off (ob (filter (where_clause search) (table_rows d)))"

definition select_all :: "(row list \<Rightarrow> row list) \<Rightarrow> db \<Rightarrow> string \<Rightarrow> row list" where
  "select_all ob d search = ob (filter (where_clause search) (table_rows d))"

record page_response =
  items :: "row list"
  page :: int
  pageSize :: int
  total :: int

definition list_prejoin :: "(row list \<Rightarrow> row list) \<Rightarrow> db \<Rightarrow> int \<Rightarrow> int \<Rightarrow> string option \<Rightarrow> page_response" where
  "list_prejoin ob d pg limit q =
     (let search = search_term q;
          offset = (pg - 1) * limit;
          n = select_count d search;
          rs = select_page ob d search limit offset
      in \<lparr>items = rs, page = pg, pageSize = limit, total = n\<rparr>)"

text \<open>The route: \<open>page\<close> is at least 1 and \<open>limit\<close> lies in 1..100, or the request is refused.\<close>

definition get_api_prejoin ::
  "(row list \<Rightarrow> row list) \<Rightarrow> db \<Rightarrow> int \<Rightarrow> int \<Rightarrow> string option \<Rightarrow> http_error + page_response" where
  "get_api_prejoin ob d pg limit q =
     (if 1 \<le> pg \<and> 1 \<le> limit \<and> limit \<le> 100 then Inr (list_prejoin ob d pg limit q)
      else Inl RequestValidationError)"

text \<open>
  A client that reads the whole listing: with \<open>n\<close> the total a response reports, the
  last page is the \<open>n / k\<close> rounded up, and the pages 1 to the last are requested in turn.
\<close>

definition last_page :: "int \<Rightarrow> int \<Rightarrow> int" where
  "last_page n k = (n + k - 1) div k"

definition iterate_pages :: "(row list \<Rightarrow> row list) \<Rightarrow> db \<Rightarrow> int \<Rightarrow> string option \<Rightarrow> row list list" where
  "iterate_pages ob d k q =
     map (\<lambda>pg. items (list_prejoin ob d pg k q))
       [1..last_page (total (list_prejoin ob d 1 k q)) k]"

text \<open>
  The export hands one list of values per line to \<open>csv.writer.writerow\<close>: the header, then
  the seven columns of each selected row. The model stops at these lists.
\<close>

datatype cell = Int_cell int | Str_cell string | None_cell

definition csv_header :: "cell list" where
  "csv_header =
     map Str_cell [''id'', ''full_name'', ''email'', ''consent'', ''created_at'', ''user_agent'', ''ip'']"

definition opt_cell :: "string option \<Rightarrow> cell" where
  "opt_cell v = (case v of None \<Rightarrow> None_cell | Some s \<Rightarrow> Str_cell s)"

definition csv_record :: "row \<Rightarrow> cell list" where
  "csv_record r =
     [Int_cell (col_id r), Str_cell (col_full_name r), Str_cell (col_email r),
      Int_cell (col_consent r), Str_cell (col_created_at r),
      opt_cell (col_user_agent r), opt_cell (col_ip r)]"

definition export_prejoin_csv :: "(row list \<Rightarrow> row list) \<Rightarrow> db \<Rightarrow> string option \<Rightarrow> cell list list" where
  "export_prejoin_csv ob d q =
     (let search = search_term q;
          rs = select_all ob d search
      in csv_header # map csv_record rs)"

subsection \<open>The service as a sequence of calls\<close>

text \<open>Every route of the application, with the table each call leaves behind.\<close>

datatype api_call =
    Post_prejoin notifier_world string PrejoinPayload request
  | Get_prejoin int int "string option"
  | Get_export "string option"
  | Post_test_email smtp_env string "string option"
  | Get_health

fun api_step :: "db \<Rightarrow> api_call \<Rightarrow> db" where
  "api_step d (Post_prejoin w utcnow data req) = fst (snd (post_api_prejoin w utcnow d data req))"
| "api_step d (Get_prejoin pg limit q) = d"
| "api_step d (Get_export q) = d"
| "api_step d (Post_test_email env to name) = d"
| "api_step d Get_health = d"

definition run_calls :: "api_call list \<Rightarrow> db" where
  "run_calls calls = fold (\<lambda>c d. api_step d c) calls (on_startup None)"

definition all_consented :: "db \<Rightarrow> bool" where
  "all_consented d = list_all (\<lambda>r. col_consent r = 1) (table_rows d)"

subsection \<open>Sample inputs\<close>

definition smtp_reachable :: smtp_env where
  "smtp_reachable =
     \<lparr>SMTP_PORT = Inr 1025, SMTP_TLS = None, SMTP_USER = None, SMTP_PASS = None,
      connect_raises = None, starttls_raises = None, login_raises = None,
      send_message_raises = None\<rparr>"

definition smtp_unreachable :: smtp_env where
  "smtp_unreachable = smtp_reachable\<lparr>connect_raises := Some (Exn ''[Errno 111] Connection refused'')\<rparr>"

definition smtp_rejecting :: smtp_env where
  "smtp_rejecting = smtp_reachable\<lparr>send_message_raises := Some (Exn ''Mailbox unavailable'')\<rparr>"

definition smtp_bad_port :: smtp_env where
  "smtp_bad_port = smtp_reachable\<lparr>SMTP_PORT := Inl (Exn ''invalid literal for int() with base 10'')\<rparr>"

definition world_ok :: notifier_world where
  "world_ok = \<lparr>thread_start_raises = None, smtp = smtp_reachable\<rparr>"

definition world_unreachable :: notifier_world where
  "world_unreachable = \<lparr>thread_start_raises = None, smtp = smtp_unreachable\<rparr>"

definition world_no_thread :: notifier_world where
  "world_no_thread = \<lparr>thread_start_raises = Some (Exn ''cannot start new thread''), smtp = smtp_reachable\<rparr>"

definition browser :: request where
  "browser = \<lparr>header_user_agent = Some ''curl/8.5.0'', client_host = Some ''127.0.0.1''\<rparr>"

definition ada :: PrejoinPayload where
  "ada = \<lparr>fullName = ''Ada Lovelace'', email = ''Ada@Test.com'', consent = True\<rparr>"

definition ada_again :: PrejoinPayload where
  "ada_again = \<lparr>fullName = ''Ada L.'', email = '' ADA@test.COM '', consent = True\<rparr>"

definition bob :: PrejoinPayload where
  "bob = \<lparr>fullName = ''Bob Stone'', email = ''bob@test.com'', consent = True\<rparr>"

definition blank_name :: PrejoinPayload where
  "blank_name = \<lparr>fullName = ''   '', email = ''nobody@test.com'', consent = True\<rparr>"

definition noon :: string where
  "noon = ''2024-05-01T12:00:00''"

definition ada_row :: row where
  "ada_row =
     \<lparr>col_id = 1, col_full_name = ''Ada Lovelace'', col_email = ''ada@test.com'', col_consent = 1,
      col_created_at = ''2024-05-01T12:00:00Z'', col_user_agent = Some ''curl/8.5.0'',
      col_ip = Some ''127.0.0.1''\<rparr>"

definition bob_row :: row where
  "bob_row =
     \<lparr>col_id = 2, col_full_name = ''Bob Stone'', col_email = ''bob@test.com'', col_consent = 1,
      col_created_at = ''2024-05-01T12:00:00Z'', col_user_agent = Some ''curl/8.5.0'',
      col_ip = Some ''127.0.0.1''\<rparr>"

definition two_rows :: db where
  "two_rows = \<lparr>table_rows = [ada_row, bob_row], seq = 2\<rparr>"

definition eve_row :: row where
  "eve_row =
     \<lparr>col_id = 3, col_full_name = ''Eve Moss'', col_email = ''eve@test.com'', col_consent = 1,
      col_created_at = ''2024-05-01T12:00:01Z'', col_user_agent = Some ''curl/8.5.0'',
      col_ip = None\<rparr>"

definition three_rows :: db where
  "three_rows = \<lparr>table_rows = [ada_row, bob_row, eve_row], seq = 3\<rparr>"




definition late_bob_row :: row where
  "late_bob_row = bob_row\<lparr>col_created_at := ''2024-05-01T12:00:00.500000Z''\<rparr>"

definition mixed_rows :: db where
  "mixed_rows = \<lparr>table_rows = [ada_row, late_bob_row], seq = 2\<rparr>"

definition nul_term :: string where
  "nul_term = CHR 0x00 # ''zzz''"

definition quux_row :: row where
  "quux_row = eve_row\<lparr>col_full_name := ''Zed'' @ [CHR 0x00] @ ''Quux''\<rparr>"

definition elan_row :: row where
  "elan_row = eve_row\<lparr>col_full_name := CHR 0xC9 # ''lan Vital''\<rparr>"

definition elan_term :: string where
  "elan_term = CHR 0xE9 # ''lan''"

section \<open>Properties\<close>

lemmas sample_defs =
  smtp_reachable_def smtp_unreachable_def smtp_rejecting_def smtp_bad_port_def
  world_ok_def world_unreachable_def world_no_thread_def browser_def ada_def ada_again_def
  bob_def blank_name_def noon_def ada_row_def bob_row_def two_rows_def empty_db_def
  eve_row_def three_rows_def late_bob_row_def mixed_rows_def nul_term_def quux_row_def
  elan_row_def elan_term_def

lemmas text_defs =
  strip_def isspace_def lower_def lower_char_def truthy_def sqlite_tolower_def c_string_def
  sqlite_like_def

lemmas notifier_defs =
  send_test_email_def send_confirmation_email_def smtp_session_def try_starttls_def
  try_login_def use_tls_def detached_notification_def default_name_def

lemmas intake_defs =
  create_prejoin_def post_api_prejoin_def PrejoinPayload_ok_def db_insert_def next_rowid_def

subsection \<open>Trimming and lower-casing\<close>

lemma strip_lower_commute: "strip (lower s) = lower (strip s)"
proof -
  have sp: "\<And>c. isspace (lower_char c) = isspace c"
    by (auto simp: isspace_def lower_char_def split: option.splits if_splits)
  have dw: "\<And>xs. dropWhile isspace (map lower_char xs) = map lower_char (dropWhile isspace xs)"
    by (simp add: dropWhile_map comp_def sp)
  show ?thesis
    unfolding strip_def lower_def
    by (simp only: dw rev_map)
qed

lemma strip_no_outer_space:
  "strip s = [] \<or> (\<not> isspace (hd (strip s)) \<and> \<not> isspace (last (strip s)))"
proof (cases "strip s = []")
  case True
  then show ?thesis by simp
next
  case False
  let ?a = "dropWhile isspace s"
  let ?b = "dropWhile isspace (rev ?a)"
  have b: "?b \<noteq> []" using False by (simp add: strip_def)
  then have hb: "\<not> isspace (hd ?b)" by (rule hd_dropWhile)
  have last_strip: "last (strip s) = hd ?b" using b by (simp add: strip_def last_rev)
  have a: "?a \<noteq> []"
  proof
    assume e: "?a = []"
    have "?b = []" unfolding e by simp
    with b show False by simp
  qed
  then have ha: "\<not> isspace (hd ?a)" by (rule hd_dropWhile)
  obtain ys where ys: "rev ?a = ys @ ?b"
    by (metis takeWhile_dropWhile_id)
  then have "?a = rev ?b @ rev ys" by (metis rev_append rev_rev_ident)
  then have "hd ?a = hd (rev ?b)" using b by (metis hd_append2 rev_is_Nil_conv)
  then have "hd (strip s) = hd ?a" by (simp add: strip_def)
  with ha hb last_strip show ?thesis by simp
qed

lemma length_strip: "length (strip s) \<le> length s"
proof -
  have "length (dropWhile isspace (rev (dropWhile isspace s))) \<le> length (rev (dropWhile isspace s))"
    by (rule length_dropWhile_le)
  also have "\<dots> \<le> length s" by (simp add: length_dropWhile_le)
  finally show ?thesis by (simp add: strip_def)
qed

subsection \<open>The insert\<close>

lemma db_insert_Inr:
  "db_insert d name mail c created ua addr = Inr d' \<Longrightarrow>
     mail \<notin> set (map col_email (table_rows d)) \<and>
     table_rows d' = table_rows d @
       [\<lparr>col_id = next_rowid d, col_full_name = name, col_email = mail, col_consent = c,
         col_created_at = created, col_user_agent = ua, col_ip = addr\<rparr>]"
  by (auto simp: db_insert_def Let_def split: if_splits)

lemma create_prejoin_Ok:
  "create_prejoin w utcnow d data req = (Inr Ok_True, d', tr) \<Longrightarrow>
     consent data \<and>
     db_insert d (strip (fullName data)) (strip (lower (email data))) 1 (utcnow @ ''Z'')
        (Some (case header_user_agent req of None \<Rightarrow> [] | Some ua \<Rightarrow> ua)) (client_host req) = Inr d'"
  by (auto simp: create_prejoin_def split: if_splits sum.splits sql_error.splits)

lemma filter_email_absent:
  "mail \<notin> set (map col_email rs) \<Longrightarrow> filter (\<lambda>r. col_email r = mail) rs = []"
  by (induction rs) auto

subsection \<open>Consent\<close>

text \<open>
  C7. A submission with \<open>consent = false\<close> is answered with the 400 error
  "Consent required"; the insert is not attempted, so the table returned is the table
  received and nothing is sent.
\<close>

theorem consent_required_before_persistence:
  "\<not> consent data \<Longrightarrow>
     create_prejoin w utcnow d data req = (Inl (HTTPException 400 ''Consent required''), d, [])"
  by (simp add: create_prejoin_def)

theorem consent_required_before_persistence_witness:
  "\<not> consent (ada\<lparr>consent := False\<rparr>) \<and>
   create_prejoin world_ok noon two_rows (ada\<lparr>consent := False\<rparr>) browser
     = (Inl (HTTPException 400 ''Consent required''), two_rows, [])"
  using consent_required_before_persistence [of "ada\<lparr>consent := False\<rparr>" world_ok noon two_rows browser]
  by (simp add: ada_def)

subsection \<open>Stored consent\<close>

lemma create_prejoin_all_consented:
  "all_consented d \<Longrightarrow> all_consented (fst (snd (create_prejoin w utcnow d data req)))"
  by (auto simp: create_prejoin_def db_insert_def all_consented_def Let_def
      split: sum.splits sql_error.splits if_splits)

lemma api_step_all_consented:
  "all_consented d \<Longrightarrow> all_consented (api_step d c)"
  by (cases c) (simp_all add: post_api_prejoin_def create_prejoin_all_consented)

lemma fold_api_step_all_consented:
  "all_consented d \<Longrightarrow> all_consented (fold (\<lambda>c d. api_step d c) calls d)"
  by (induction calls arbitrary: d) (simp_all add: api_step_all_consented)

lemma create_prejoin_keeps_rows:
  "prefix (table_rows d) (table_rows (fst (snd (create_prejoin w utcnow d data req))))"
  by (auto simp: create_prejoin_def db_insert_def Let_def split: sum.splits sql_error.splits if_splits)

lemma api_step_keeps_rows: "prefix (table_rows d) (table_rows (api_step d c))"
  by (cases c) (simp_all add: post_api_prejoin_def create_prejoin_keeps_rows)

text \<open>
  C10. Every row of the table has \<open>consent = 1\<close>: the table of a fresh start has none, a
  call that finds the property leaves it, so it holds after any sequence of calls; and
  no call removes or changes a row, the table it leaves starts with the table it found.
\<close>

theorem stored_consent_always_one:
  "all_consented (run_calls calls) \<and>
   (all_consented d \<longrightarrow> all_consented (api_step d c)) \<and>
   prefix (table_rows d) (table_rows (api_step d c))"
proof -
  have "all_consented (on_startup None)"
    by (simp add: on_startup_def empty_db_def all_consented_def)
  then have "all_consented (run_calls calls)"
    unfolding run_calls_def by (rule fold_api_step_all_consented)
  then show ?thesis
    by (simp add: api_step_all_consented api_step_keeps_rows)
qed

theorem stored_consent_always_one_witness:
  "all_consented two_rows \<and>
   all_consented (api_step two_rows (Post_prejoin world_ok noon blank_name browser)) \<and>
   prefix (table_rows two_rows) (table_rows (api_step two_rows (Post_prejoin world_ok noon blank_name browser))) \<and>
   all_consented (run_calls [Post_prejoin world_ok noon ada browser, Get_health,
                             Post_prejoin world_unreachable noon bob browser])"
proof -
  have "all_consented two_rows"
    by (simp add: all_consented_def two_rows_def ada_row_def bob_row_def)
  with stored_consent_always_one
         [of "[Post_prejoin world_ok noon ada browser, Get_health,
               Post_prejoin world_unreachable noon bob browser]"
             two_rows "Post_prejoin world_ok noon blank_name browser"]
  show ?thesis by simp
qed

subsection \<open>Uniqueness of the email\<close>

text \<open>
  C5. After a submission has been stored, a second submission (itself carrying consent)
  whose email is the same after lower-casing and trimming is answered with the 409
  error "Email already registered"; the table is the one the first submission left,
  and it holds exactly one row with that normalized email.
\<close>

theorem duplicate_email_conflict:
  assumes first: "create_prejoin w1 t1 d data1 req1 = (Inr Ok_True, d1, tr1)"
    and "consent data2"
    and same: "strip (lower (email data2)) = strip (lower (email data1))"
  shows "create_prejoin w2 t2 d1 data2 req2
           = (Inl (HTTPException 409 ''Email already registered''), d1, []) \<and>
         length (filter (\<lambda>r. col_email r = strip (lower (email data1))) (table_rows d1)) = 1"
proof -
  let ?mail = "strip (lower (email data1))"
  let ?ua = "Some (case header_user_agent req1 of None \<Rightarrow> [] | Some ua \<Rightarrow> ua)"
  from create_prejoin_Ok [OF first]
  have ins: "db_insert d (strip (fullName data1)) ?mail 1 (t1 @ ''Z'') ?ua (client_host req1) = Inr d1"
    by blast
  from db_insert_Inr [OF ins] have fresh: "?mail \<notin> set (map col_email (table_rows d))"
    and rows: "table_rows d1 = table_rows d @
       [\<lparr>col_id = next_rowid d, col_full_name = strip (fullName data1), col_email = ?mail,
         col_consent = 1, col_created_at = t1 @ ''Z'', col_user_agent = ?ua,
         col_ip = client_host req1\<rparr>]"
    by simp_all
  have present: "?mail \<in> set (map col_email (table_rows d1))"
    by (simp add: rows)
  have conflict: "create_prejoin w2 t2 d1 data2 req2
      = (Inl (HTTPException 409 ''Email already registered''), d1, [])"
    using \<open>consent data2\<close> present same by (simp add: create_prejoin_def db_insert_def)
  have once: "length (filter (\<lambda>r. col_email r = ?mail) (table_rows d1)) = 1"
    by (simp add: rows filter_email_absent [OF fresh])
  from conflict once show ?thesis by simp
qed

theorem duplicate_email_conflict_witness:
  "create_prejoin world_ok noon empty_db ada browser
     = (Inr Ok_True, \<lparr>table_rows = [ada_row], seq = 1\<rparr>,
        [Connected, Sent ''Ada@Test.com'' ''Ada Lovelace'']) \<and>
   consent ada_again \<and>
   strip (lower (email ada_again)) = strip (lower (email ada)) \<and>
   email ada_again \<noteq> email ada \<and>
   create_prejoin world_ok noon \<lparr>table_rows = [ada_row], seq = 1\<rparr> ada_again browser
     = (Inl (HTTPException 409 ''Email already registered''), \<lparr>table_rows = [ada_row], seq = 1\<rparr>, []) \<and>
   length (filter (\<lambda>r. col_email r = strip (lower (email ada))) [ada_row]) = 1"
proof -
  have first: "create_prejoin world_ok noon empty_db ada browser
     = (Inr Ok_True, \<lparr>table_rows = [ada_row], seq = 1\<rparr>,
        [Connected, Sent ''Ada@Test.com'' ''Ada Lovelace''])"
    by (simp add: sample_defs notifier_defs text_defs intake_defs)
  have c: "consent ada_again" by (simp add: ada_again_def)
  have same: "strip (lower (email ada_again)) = strip (lower (email ada))"
    by (simp add: sample_defs text_defs)
  have diff: "email ada_again \<noteq> email ada" by (simp add: sample_defs)
  from duplicate_email_conflict [OF first c same, of world_ok noon browser] first c same diff
  show ?thesis by simp
qed

subsection \<open>The length of the full name\<close>

text \<open>
  The claim C4 as it is written fails: a \<open>fullName\<close> of three blanks passes
  \<open>constr(min_length=3)\<close>, and the row stored for it has the empty \<open>full_name\<close>.
\<close>

theorem blank_full_name_counterexample:
  "post_api_prejoin world_ok noon empty_db blank_name browser
     = (Inr Ok_True,
        \<lparr>table_rows =
           [\<lparr>col_id = 1, col_full_name = [], col_email = ''nobody@test.com'', col_consent = 1,
             col_created_at = ''2024-05-01T12:00:00Z'', col_user_agent = Some ''curl/8.5.0'',
             col_ip = Some ''127.0.0.1''\<rparr>],
         seq = 1\<rparr>,
        [Connected, Sent ''nobody@test.com'' ''   ''])"
  by (simp add: sample_defs notifier_defs text_defs intake_defs)

text \<open>
  C4, amended. An accepted submission has a \<open>fullName\<close> of at least 3 characters as it
  was sent, before trimming. The row appended for it stores the trimmed name: it has no
  white space at either end and is no longer than the name sent (it may be shorter than
  3 characters, and empty).
\<close>

theorem accepted_full_name_raw_length:
  assumes "post_api_prejoin w utcnow d data req = (Inr Ok_True, d', tr)"
  shows "3 \<le> length (fullName data) \<and>
         map col_full_name (table_rows d') = map col_full_name (table_rows d) @ [strip (fullName data)] \<and>
         (strip (fullName data) = [] \<or>
            (\<not> isspace (hd (strip (fullName data))) \<and> \<not> isspace (last (strip (fullName data))))) \<and>
         length (strip (fullName data)) \<le> length (fullName data)"
proof -
  from assms have ok: "PrejoinPayload_ok data"
    and cr: "create_prejoin w utcnow d data req = (Inr Ok_True, d', tr)"
    by (auto simp: post_api_prejoin_def split: if_splits)
  from db_insert_Inr [OF conjunct2 [OF create_prejoin_Ok [OF cr]]]
  have "map col_full_name (table_rows d') = map col_full_name (table_rows d) @ [strip (fullName data)]"
    by simp
  with ok strip_no_outer_space [of "fullName data"] length_strip [of "fullName data"]
  show ?thesis by (simp add: PrejoinPayload_ok_def)
qed

theorem accepted_full_name_raw_length_witness:
  "post_api_prejoin world_ok noon empty_db ada browser
     = (Inr Ok_True, \<lparr>table_rows = [ada_row], seq = 1\<rparr>,
        [Connected, Sent ''Ada@Test.com'' ''Ada Lovelace'']) \<and>
   3 \<le> length (fullName ada) \<and>
   map col_full_name [ada_row] = [strip (fullName ada)] \<and>
   length (strip (fullName ada)) \<le> length (fullName ada)"
proof -
  have acc: "post_api_prejoin world_ok noon empty_db ada browser
     = (Inr Ok_True, \<lparr>table_rows = [ada_row], seq = 1\<rparr>,
        [Connected, Sent ''Ada@Test.com'' ''Ada Lovelace''])"
    by (simp add: sample_defs notifier_defs text_defs intake_defs)
  from accepted_full_name_raw_length [OF acc] acc show ?thesis
    by (simp add: empty_db_def)
qed

subsection \<open>The engine's ordering\<close>

lemma order_by_ok_scan_order_sort: "order_by_ok scan_order_sort"
proof -
  have m: "mset (scan_order_sort rs) = mset rs" for rs
    by (simp add: scan_order_sort_def)
  have s: "created_at_desc (scan_order_sort rs)" for rs
  proof -
    have "sorted (map col_created_at (sort_key col_created_at (rev rs)))"
      by (rule sorted_sort_key)
    then have "sorted_wrt (\<lambda>a b. col_created_at a \<le> col_created_at b)
                 (sort_key col_created_at (rev rs))"
      by (simp add: sorted_map)
    then show ?thesis
      by (simp add: created_at_desc_def scan_order_sort_def sorted_wrt_rev)
  qed
  from m s show ?thesis by (simp add: order_by_ok_def)
qed

lemma length_order_by: "order_by_ok ob \<Longrightarrow> length (ob rs) = length rs"
  by (metis order_by_ok_def size_mset)

lemma mset_select_all:
  "order_by_ok ob \<Longrightarrow>
     mset (select_all ob d search) = mset (filter (where_clause search) (table_rows d))"
  by (simp add: select_all_def order_by_ok_def)



lemma export_prejoin_csv_rows:
  "export_prejoin_csv ob d q = csv_header # map csv_record (select_all ob d (search_term q))"
  by (simp add: export_prejoin_csv_def Let_def)

lemma items_list_prejoin:
  "0 \<le> limit \<Longrightarrow>
     items (list_prejoin ob d pg limit q)
       = take (nat limit) (drop (nat ((pg - 1) * limit)) (select_all ob d (search_term q)))"
  by (simp add: list_prejoin_def select_page_def select_all_def sql_limit_offset_def Let_def)

lemma total_list_prejoin:
  "total (list_prejoin ob d pg limit q)
     = int (length (filter (where_clause (search_term q)) (table_rows d)))"
  by (simp add: list_prejoin_def select_count_def Let_def)

lemma search_term_None: "search_term None = []"
  by (simp add: search_term_def strip_def)


lemma scan_order_sort_three:
  "scan_order_sort [ada_row, bob_row, eve_row] = [eve_row, ada_row, bob_row]"
  by (simp add: scan_order_sort_def ada_row_def bob_row_def eve_row_def)


lemma select_all_three: "select_all scan_order_sort three_rows [] = [eve_row, ada_row, bob_row]"
  by (simp add: select_all_def where_clause_def scan_order_sort_three three_rows_def)

subsection \<open>Identifiers\<close>

lemma fold_max_ge: "(a::int) \<le> fold max xs a"
proof (induction xs arbitrary: a)
  case Nil
  show ?case by simp
next
  case (Cons y ys)
  have "a \<le> max y a" by simp
  also have "\<dots> \<le> fold max ys (max y a)" by (rule Cons.IH)
  finally show ?case by simp
qed

lemma fold_max_upper: "x \<in> set xs \<Longrightarrow> x \<le> fold max xs (a::int)"
proof (induction xs arbitrary: a)
  case Nil
  then show ?case by simp
next
  case (Cons y ys)
  show ?case
  proof (cases "x = y")
    case True
    have "y \<le> max y a" by simp
    also have "\<dots> \<le> fold max ys (max y a)" by (rule fold_max_ge)
    finally show ?thesis using True by simp
  next
    case False
    with Cons.prems have "x \<in> set ys" by simp
    then have "x \<le> fold max ys (max y a)" by (rule Cons.IH)
    then show ?thesis by simp
  qed
qed

lemma create_prejoin_distinct_ids:
  "distinct (map col_id (table_rows d)) \<Longrightarrow>
     distinct (map col_id (table_rows (fst (snd (create_prejoin w utcnow d data req)))))"
proof -
  assume dist: "distinct (map col_id (table_rows d))"
  have "next_rowid d \<notin> set (map col_id (table_rows d))"
  proof
    assume "next_rowid d \<in> set (map col_id (table_rows d))"
    from fold_max_upper [OF this, of "seq d"] show False by (simp add: next_rowid_def)
  qed
  with dist show ?thesis
    by (auto simp: create_prejoin_def db_insert_def Let_def
        split: sum.splits sql_error.splits if_splits)
qed

text \<open>The identifiers of a table built by the service from a fresh start are pairwise different.\<close>

lemma run_calls_distinct_ids: "distinct (map col_id (table_rows (run_calls calls)))"
proof -
  have step: "distinct (map col_id (table_rows (api_step d c)))"
    if "distinct (map col_id (table_rows d))" for d c
    using that by (cases c) (simp_all add: post_api_prejoin_def create_prejoin_distinct_ids)
  have "distinct (map col_id (table_rows d)) \<Longrightarrow>
        distinct (map col_id (table_rows (fold (\<lambda>c d. api_step d c) cs d)))" for cs d
    by (induction cs arbitrary: d) (simp_all add: step)
  then show ?thesis
    by (simp add: run_calls_def on_startup_def empty_db_def)
qed

subsection \<open>The search filter\<close>

lemma like_percent_any: "like ''%'' s"
  by (induction s) simp_all

lemma like_prefix:
  "CHR ''%'' \<notin> set t \<Longrightarrow> CHR ''_'' \<notin> set t \<Longrightarrow>
     like (t @ ''%'') s \<longleftrightarrow> prefix (map sqlite_tolower t) (map sqlite_tolower s)"
proof (induction t arbitrary: s)
  case Nil
  then show ?case by (simp add: like_percent_any)
next
  case (Cons p ps)
  show ?case
  proof (cases s)
    case Nil
    with Cons.prems show ?thesis by auto
  next
    case (Cons c cs)
    with Cons.prems Cons.IH [of cs] show ?thesis by auto
  qed
qed

lemma like_contains:
  assumes "CHR ''%'' \<notin> set t" and "CHR ''_'' \<notin> set t"
  shows "like (CHR ''%'' # t @ ''%'') s \<longleftrightarrow> sublist (map sqlite_tolower t) (map sqlite_tolower s)"
proof (induction s)
  case Nil
  have "like (CHR ''%'' # t @ ''%'') [] \<longleftrightarrow> like (t @ ''%'') []" by simp
  also have "\<dots> \<longleftrightarrow> prefix (map sqlite_tolower t) (map sqlite_tolower [])"
    using assms by (rule like_prefix)
  finally show ?case by simp
next
  case (Cons c cs)
  have "like (CHR ''%'' # t @ ''%'') (c # cs) \<longleftrightarrow>
          like (t @ ''%'') (c # cs) \<or> like (CHR ''%'' # t @ ''%'') cs"
    by simp
  also have "\<dots> \<longleftrightarrow> prefix (map sqlite_tolower t) (map sqlite_tolower (c # cs)) \<or>
      sublist (map sqlite_tolower t) (map sqlite_tolower cs)"
    using Cons.IH like_prefix [OF assms, of "c # cs"] by simp
  also have "\<dots> \<longleftrightarrow> sublist (map sqlite_tolower t) (map sqlite_tolower (c # cs))"
    by (simp add: sublist_Cons_right)
  finally show ?case by simp
qed

lemma c_string_nul_free: "nul_free s \<Longrightarrow> c_string s = s"
  by (auto simp: nul_free_def c_string_def takeWhile_eq_all_conv)

lemma sqlite_like_nul_free:
  "nul_free t \<Longrightarrow> nul_free s \<Longrightarrow>
     sqlite_like (CHR ''%'' # t @ ''%'') s = like (CHR ''%'' # t @ ''%'') s"
proof -
  assume t: "nul_free t" and s: "nul_free s"
  from t have "nul_free (CHR ''%'' # t @ ''%'')" by (simp add: nul_free_def)
  then show ?thesis by (simp add: sqlite_like_def c_string_nul_free s)
qed

lemma where_clause_nul_free:
  assumes "nul_free t" and "nul_free (col_full_name r)" and "nul_free (col_email r)"
  shows "where_clause t r = like_search_matches t r"
proof (cases "t = []")
  case True
  have "like (CHR ''%'' # [] @ ''%'') (col_full_name r)"
    by (subst like_contains) simp_all
  with True show ?thesis by (simp add: where_clause_def like_search_matches_def)
next
  case False
  with assms show ?thesis
    by (simp add: where_clause_def like_search_matches_def Let_def sqlite_like_nul_free)
qed

lemma filter_where_clause_nul_free:
  assumes "nul_free t"
    and "list_all (\<lambda>r. nul_free (col_full_name r) \<and> nul_free (col_email r)) rs"
  shows "filter (where_clause t) rs = filter (like_search_matches t) rs"
proof (rule filter_cong [OF refl])
  fix r
  assume "r \<in> set rs"
  with assms(2) have "nul_free (col_full_name r)" and "nul_free (col_email r)"
    by (simp_all add: list_all_iff)
  with assms(1) show "where_clause t r = like_search_matches t r"
    by (rule where_clause_nul_free)
qed

text \<open>
  The claim C3 as it is written fails, in three ways. A wildcard in the term is read as
  one: \<open>l_v\<close> selects the row of Ada Lovelace and \<open>%\<close> the row of Bob Stone, and neither
  term occurs in that row. A NUL character ends the pattern and the text: the term that
  starts with one selects every row, and \<open>Quux\<close> does not find the name in which it
  follows a NUL. And only the letters \<open>A\<close> to \<open>Z\<close> are folded: the term with a small
  e-acute does not find the name that has the capital one.
\<close>

theorem wildcard_search_counterexample:
  "where_clause (search_term (Some ''l_v'')) ada_row \<and>
   \<not> spec_search_matches ''l_v'' ada_row \<and>
   where_clause (search_term (Some ''%'')) bob_row \<and>
   \<not> spec_search_matches ''%'' bob_row \<and>
   where_clause (search_term (Some nul_term)) bob_row \<and>
   \<not> spec_search_matches nul_term bob_row \<and>
   \<not> where_clause (search_term (Some ''Quux'')) quux_row \<and>
   spec_search_matches ''Quux'' quux_row \<and>
   \<not> where_clause (search_term (Some elan_term)) elan_row \<and>
   spec_search_matches elan_term elan_row"
  by (simp add: where_clause_def search_term_def spec_search_matches_def text_defs sample_defs
      sublist_code)

text \<open>
  C3, amended. Let the term be the query text trimmed of surrounding white space, with
  no NUL character in it or in the stored names and emails, and short enough for the
  engine to accept the pattern. The export, and the listing in its \<open>total\<close> and on each of
  its pages, select the rows of the table in which the pattern \<open>%term%\<close> matches \<open>full_name\<close>
  or \<open>email\<close> under \<open>LIKE\<close>, where \<open>%\<close> and \<open>_\<close> inside the term are wildcards. For a term
  with neither \<open>%\<close> nor \<open>_\<close> these are the rows in which the term is a substring of the
  name or of the email, the letters \<open>A\<close> to \<open>Z\<close> folded and no other; for an absent, empty
  or blank term they are all the rows.
\<close>

theorem search_filter_is_like:
  assumes ob: "order_by_ok ob"
    and t: "t = strip (case q of None \<Rightarrow> [] | Some s \<Rightarrow> s)"
    and tn: "nul_free t" and tl: "length t \<le> 12498"
    and rn: "list_all (\<lambda>r. nul_free (col_full_name r) \<and> nul_free (col_email r)) (table_rows d)"
    and pg: "1 \<le> pg" "1 \<le> limit" "limit \<le> 100" "(pg - 1) * limit < 2 ^ 63"
  shows "mset (select_all ob d (search_term q))
           = mset (filter (like_search_matches t) (table_rows d)) \<and>
         export_prejoin_csv ob d q = csv_header # map csv_record (select_all ob d (search_term q)) \<and>
         get_api_prejoin ob d pg limit q
           = Inr \<lparr>items = take (nat limit) (drop (nat ((pg - 1) * limit))
                             (select_all ob d (search_term q))),
                  page = pg, pageSize = limit,
                  total = int (length (filter (like_search_matches t) (table_rows d)))\<rparr> \<and>
         (CHR ''%'' \<notin> set t \<and> CHR ''_'' \<notin> set t \<longrightarrow>
            (\<forall>r. like_search_matches t r \<longleftrightarrow> ascii_search_matches t r)) \<and>
         (t = [] \<longrightarrow> mset (select_all ob d (search_term q)) = mset (table_rows d))"
proof -
  have st: "search_term q = t" by (simp add: t search_term_def)
  have flt: "filter (where_clause t) (table_rows d) = filter (like_search_matches t) (table_rows d)"
    using tn rn by (rule filter_where_clause_nul_free)
  have sel: "mset (select_all ob d (search_term q))
      = mset (filter (like_search_matches t) (table_rows d))"
    by (simp add: st mset_select_all [OF ob] flt)
  have page: "get_api_prejoin ob d pg limit q
      = Inr \<lparr>items = take (nat limit) (drop (nat ((pg - 1) * limit))
                        (select_all ob d (search_term q))),
             page = pg, pageSize = limit,
             total = int (length (filter (like_search_matches t) (table_rows d)))\<rparr>"
    using pg(1-3)
    by (simp add: get_api_prejoin_def list_prejoin_def select_page_def select_count_def
        select_all_def sql_limit_offset_def Let_def st flt)
  have sub: "like_search_matches t r \<longleftrightarrow> ascii_search_matches t r"
    if "CHR ''%'' \<notin> set t" "CHR ''_'' \<notin> set t" for r
    by (simp add: like_search_matches_def ascii_search_matches_def like_contains [OF that])
  have all: "mset (select_all ob d (search_term q)) = mset (table_rows d)" if "t = []"
    using that by (simp add: st mset_select_all [OF ob] where_clause_def)
  from sel page sub all show ?thesis
    by (simp add: export_prejoin_csv_rows)
qed

lemma select_all_three_ada:
  "select_all scan_order_sort three_rows ''ADA'' = [ada_row]"
  by (simp add: select_all_def where_clause_def scan_order_sort_def text_defs sample_defs)

theorem search_filter_is_like_witness:
  "order_by_ok scan_order_sort \<and>
   ''ADA'' = strip (case Some '' ADA '' of None \<Rightarrow> [] | Some s \<Rightarrow> s) \<and>
   nul_free ''ADA'' \<and>
   list_all (\<lambda>r. nul_free (col_full_name r) \<and> nul_free (col_email r)) (table_rows three_rows) \<and>
   get_api_prejoin scan_order_sort three_rows 1 20 (Some '' ADA '')
     = Inr \<lparr>items = [ada_row], page = 1, pageSize = 20, total = 1\<rparr> \<and>
   export_prejoin_csv scan_order_sort three_rows (Some '' ADA '') = [csv_header, csv_record ada_row] \<and>
   ascii_search_matches ''ADA'' ada_row \<and>
   \<not> ascii_search_matches ''ADA'' bob_row"
proof -
  have t: "''ADA'' = strip (case Some '' ADA '' of None \<Rightarrow> [] | Some s \<Rightarrow> s)"
    by (simp add: text_defs)
  have tn: "nul_free ''ADA''" and tl: "length ''ADA'' \<le> 12498"
    by (simp_all add: nul_free_def)
  have rn: "list_all (\<lambda>r. nul_free (col_full_name r) \<and> nul_free (col_email r))
              (table_rows three_rows)"
    by (simp add: nul_free_def sample_defs)
  have pg: "(1::int) \<le> 1" "(1::int) \<le> 20" "(20::int) \<le> 100" "((1::int) - 1) * 20 < 2 ^ 63"
    by simp_all
  have st: "search_term (Some '' ADA '') = ''ADA''"
    by (simp add: search_term_def text_defs)
  have n: "length (filter (like_search_matches ''ADA'') (table_rows three_rows)) = 1"
    by (simp add: like_search_matches_def text_defs sample_defs)
  have m: "ascii_search_matches ''ADA'' ada_row" "\<not> ascii_search_matches ''ADA'' bob_row"
    by (simp_all add: ascii_search_matches_def text_defs sample_defs sublist_code)
  note th = search_filter_is_like [OF order_by_ok_scan_order_sort t tn tl rn pg]
  from th have "get_api_prejoin scan_order_sort three_rows 1 20 (Some '' ADA '')
      = Inr \<lparr>items = take (nat 20) (drop (nat ((1 - 1) * 20))
                        (select_all scan_order_sort three_rows (search_term (Some '' ADA '')))),
             page = 1, pageSize = 20,
             total = int (length (filter (like_search_matches ''ADA'') (table_rows three_rows)))\<rparr>"
    by blast
  then have g: "get_api_prejoin scan_order_sort three_rows 1 20 (Some '' ADA '')
      = Inr \<lparr>items = [ada_row], page = 1, pageSize = 20, total = 1\<rparr>"
    by (simp add: st n select_all_three_ada)
  from th have "export_prejoin_csv scan_order_sort three_rows (Some '' ADA '')
      = csv_header # map csv_record (select_all scan_order_sort three_rows (search_term (Some '' ADA '')))"
    by blast
  then have e: "export_prejoin_csv scan_order_sort three_rows (Some '' ADA '')
      = [csv_header, csv_record ada_row]"
    by (simp add: st select_all_three_ada)
  from t tn rn g e m show ?thesis
    by (simp only: order_by_ok_scan_order_sort simp_thms)
qed

subsection \<open>The text of a clock reading\<close>



















text \<open>The row a submission stores carries the clock reading it was given, with \<open>Z\<close> after it.\<close>

lemma create_prejoin_created_at:
  assumes "create_prejoin w (isoformat t) d data req = (Inr Ok_True, d', tr)"
  shows "col_created_at (last (table_rows d')) = isoformat t @ ''Z''"
  using db_insert_Inr [OF conjunct2 [OF create_prejoin_Ok [OF assms]]] by simp

subsection \<open>Ordering of the listing and of the export\<close>






subsection \<open>Pagination\<close>

lemma upto_from_one: "[1..int n] = map (\<lambda>i. int i + 1) [0..<n]"
proof (induction n)
  case 0
  show ?case by simp
next
  case (Suc n)
  have "[1..int (Suc n)] = [1..int n] @ [int n + 1]"
    by (simp add: upto_rec2 add.commute)
  with Suc show ?case by simp
qed

lemma concat_slices: "concat (map (\<lambda>i. take k (drop (i * k) xs)) [0..<m]) = take (m * k) xs"
proof (induction m)
  case 0
  show ?case by simp
next
  case (Suc m)
  have "take (m * k + k) xs = take (m * k) xs @ take k (drop (m * k) xs)"
    by (rule take_add)
  with Suc show ?case by (simp add: add.commute)
qed

lemma ceil_div_bounds:
  fixes n k :: nat
  assumes "0 < k"
  shows "n \<le> ((n + k - 1) div k) * k" and "i < (n + k - 1) div k \<Longrightarrow> i * k < n"
proof -
  let ?m = "(n + k - 1) div k"
  have "n + k - 1 < (?m + 1) * k"
    using assms by (metis Suc_eq_plus1 dividend_less_div_times mult.commute add.commute mult_Suc)
  then show "n \<le> ?m * k" using assms by simp
  assume "i < ?m"
  then have "(i + 1) * k \<le> ?m * k" by (simp add: mult_le_mono1 del: mult_Suc)
  also have "\<dots> \<le> n + k - 1" by (rule div_times_less_eq_dividend)
  finally show "i * k < n" using assms by simp
qed

lemma last_page_nat:
  "1 \<le> k \<Longrightarrow> last_page (int n) k = int ((n + nat k - 1) div nat k)"
proof -
  assume k: "1 \<le> k"
  then have "int (n + nat k - 1) = int n + k - 1" by (simp add: of_nat_diff)
  moreover have "int (nat k) = k" using k by simp
  ultimately show ?thesis
    by (simp add: last_page_def zdiv_int)
qed

lemma iterate_pages_slices:
  assumes "order_by_ok ob" and k: "1 \<le> k"
  shows "iterate_pages ob d k q =
           map (\<lambda>i. take (nat k) (drop (i * nat k) (select_all ob d (search_term q))))
             [0..<(length (select_all ob d (search_term q)) + nat k - 1) div nat k]"
proof -
  let ?xs = "select_all ob d (search_term q)"
  let ?n = "length ?xs"
  have n: "total (list_prejoin ob d 1 k q) = int ?n"
    using assms(1) by (simp add: total_list_prejoin select_all_def length_order_by)
  have off: "nat (int i * k) = i * nat k" for i
    using k by (simp add: nat_mult_distrib)
  show ?thesis
    unfolding iterate_pages_def n last_page_nat [OF k] upto_from_one
    using k by (simp add: items_list_prejoin off comp_def)
qed

lemma concat_iterate_pages:
  assumes "order_by_ok ob" and k: "1 \<le> k"
  shows "concat (iterate_pages ob d k q) = select_all ob d (search_term q)"
proof -
  let ?xs = "select_all ob d (search_term q)"
  have "0 < nat k" using k by simp
  from ceil_div_bounds(1) [OF this, of "length ?xs"]
  show ?thesis
    by (simp add: iterate_pages_slices [OF assms] concat_slices)
qed

text \<open>
  C6. With \<open>n\<close> matching rows and a page size \<open>k\<close> of at least 1, the pages 1 to
  \<open>ceil(n / k)\<close> are that many, none is empty and none longer than \<open>k\<close>; put end to
  end they are the unpaginated selection, which holds the matching rows of the table,
  each as often as the table does, so with pairwise different identifiers in the table
  no identifier appears twice; and every response reports the total \<open>n\<close>.
\<close>

theorem pagination_partitions_matches:
  assumes ob: "order_by_ok ob" and k: "1 \<le> k"
  shows "int (length (iterate_pages ob d k q))
           = last_page (int (length (filter (where_clause (search_term q)) (table_rows d)))) k \<and>
         (\<forall>p \<in> set (iterate_pages ob d k q). p \<noteq> [] \<and> int (length p) \<le> k) \<and>
         concat (iterate_pages ob d k q) = select_all ob d (search_term q) \<and>
         mset (concat (iterate_pages ob d k q))
           = mset (filter (where_clause (search_term q)) (table_rows d)) \<and>
         (distinct (map col_id (table_rows d)) \<longrightarrow>
            distinct (map col_id (concat (iterate_pages ob d k q)))) \<and>
         (\<forall>pg. total (list_prejoin ob d pg k q)
           = int (length (filter (where_clause (search_term q)) (table_rows d))))"
proof -
  let ?xs = "select_all ob d (search_term q)"
  let ?ms = "filter (where_clause (search_term q)) (table_rows d)"
  let ?m = "(length ?xs + nat k - 1) div nat k"
  have len: "length ?xs = length ?ms"
    using ob by (simp add: select_all_def length_order_by)
  have kpos: "0 < nat k" using k by simp
  have count: "int (length (iterate_pages ob d k q)) = last_page (int (length ?ms)) k"
    by (simp add: iterate_pages_slices [OF ob k] last_page_nat [OF k] len)
  have pages: "p \<noteq> [] \<and> int (length p) \<le> k" if "p \<in> set (iterate_pages ob d k q)" for p
  proof -
    from that obtain i where i: "i < ?m" and p: "p = take (nat k) (drop (i * nat k) ?xs)"
      by (auto simp: iterate_pages_slices [OF ob k])
    from ceil_div_bounds(2) [OF kpos i] have "i * nat k < length ?xs" .
    with kpos p k show ?thesis by simp
  qed
  have cat: "concat (iterate_pages ob d k q) = ?xs"
    by (rule concat_iterate_pages [OF ob k])
  have ms: "mset (concat (iterate_pages ob d k q)) = mset ?ms"
    by (simp add: cat mset_select_all [OF ob])
  have dist: "distinct (map col_id (concat (iterate_pages ob d k q)))"
    if "distinct (map col_id (table_rows d))"
  proof -
    from that have "distinct (map col_id ?ms)" by (rule distinct_map_filter)
    moreover have "mset (map col_id (concat (iterate_pages ob d k q))) = mset (map col_id ?ms)"
      using ms by (metis mset_map)
    ultimately show ?thesis by (metis mset_eq_imp_distinct_iff)
  qed
  from count pages cat ms dist show ?thesis
    by (simp add: total_list_prejoin)
qed

theorem pagination_partitions_matches_witness:
  "order_by_ok scan_order_sort \<and> (1::int) \<le> 2 \<and>
   int (length (iterate_pages scan_order_sort three_rows 2 None)) = 2 \<and>
   concat (iterate_pages scan_order_sort three_rows 2 None) = [eve_row, ada_row, bob_row] \<and>
   total (list_prejoin scan_order_sort three_rows 2 2 None) = 3"
proof -
  have k: "(1::int) \<le> 2" by simp
  have n: "length (filter (where_clause []) (table_rows three_rows)) = 3"
    by (simp add: where_clause_def three_rows_def)
  from pagination_partitions_matches [OF order_by_ok_scan_order_sort k, of three_rows None]
  show ?thesis
    by (simp add: order_by_ok_scan_order_sort search_term_None select_all_three n last_page_def)
qed

subsection \<open>The export\<close>

text \<open>
  C9. The export is the header line followed by one line per row of the unpaginated
  selection. That selection holds the rows of the table that pass the filter of the
  listing, as many as the listing reports in \<open>total\<close>; the pages of the listing are
  consecutive slices of it, and the pages 1 to the last, put end to end, give the lines
  of the export in its order. The header names the seven columns and every line has
  seven values.
\<close>

theorem export_matches_listing:
  assumes ob: "order_by_ok ob"
  shows "export_prejoin_csv ob d q = csv_header # map csv_record (select_all ob d (search_term q)) \<and>
         mset (select_all ob d (search_term q))
           = mset (filter (where_clause (search_term q)) (table_rows d)) \<and>
         int (length (export_prejoin_csv ob d q)) = total (list_prejoin ob d pg limit q) + 1 \<and>
         (1 \<le> k \<longrightarrow>
            export_prejoin_csv ob d q = csv_header # map csv_record (concat (iterate_pages ob d k q))) \<and>
         (0 \<le> limit \<longrightarrow>
            items (list_prejoin ob d pg limit q)
              = take (nat limit) (drop (nat ((pg - 1) * limit)) (select_all ob d (search_term q)))) \<and>
         csv_header = map Str_cell
           [''id'', ''full_name'', ''email'', ''consent'', ''created_at'', ''user_agent'', ''ip''] \<and>
         (\<forall>line \<in> set (export_prejoin_csv ob d q). length line = 7)"
proof -
  have len: "length (select_all ob d (search_term q))
      = length (filter (where_clause (search_term q)) (table_rows d))"
    using ob by (simp add: select_all_def length_order_by)
  have n: "int (length (export_prejoin_csv ob d q)) = total (list_prejoin ob d pg limit q) + 1"
    by (simp add: export_prejoin_csv_rows total_list_prejoin len)
  have pages: "export_prejoin_csv ob d q = csv_header # map csv_record (concat (iterate_pages ob d k q))"
    if "1 \<le> k"
    by (simp add: export_prejoin_csv_rows concat_iterate_pages [OF ob that])
  have cols: "length line = 7" if "line \<in> set (export_prejoin_csv ob d q)" for line
    using that by (auto simp: export_prejoin_csv_rows csv_header_def csv_record_def)
  from n pages cols show ?thesis
    by (simp add: export_prejoin_csv_rows mset_select_all [OF ob] items_list_prejoin csv_header_def)
qed

theorem export_matches_listing_witness:
  "order_by_ok scan_order_sort \<and>
   export_prejoin_csv scan_order_sort three_rows None
     = [csv_header, csv_record eve_row, csv_record ada_row, csv_record bob_row] \<and>
   items (list_prejoin scan_order_sort three_rows 2 2 None) = [bob_row] \<and>
   total (list_prejoin scan_order_sort three_rows 2 2 None) = 3 \<and>
   csv_record eve_row
     = [Int_cell 3, Str_cell ''Eve Moss'', Str_cell ''eve@test.com'', Int_cell 1,
        Str_cell ''2024-05-01T12:00:01Z'', Str_cell ''curl/8.5.0'', None_cell]"
proof -
  note th = export_matches_listing [OF order_by_ok_scan_order_sort, of three_rows None 2 2 1]
  from th have "export_prejoin_csv scan_order_sort three_rows None
      = csv_header # map csv_record (select_all scan_order_sort three_rows (search_term None))"
    by blast
  then have e: "export_prejoin_csv scan_order_sort three_rows None
      = [csv_header, csv_record eve_row, csv_record ada_row, csv_record bob_row]"
    by (simp add: search_term_None select_all_three)
  from th have "items (list_prejoin scan_order_sort three_rows 2 2 None)
      = take (nat 2) (drop (nat ((2 - 1) * 2)) (select_all scan_order_sort three_rows (search_term None)))"
    by simp
  then have i: "items (list_prejoin scan_order_sort three_rows 2 2 None) = [bob_row]"
    by (simp add: search_term_None select_all_three)
  have t: "total (list_prejoin scan_order_sort three_rows 2 2 None) = 3"
    by (simp add: total_list_prejoin search_term_None where_clause_def three_rows_def)
  have c: "csv_record eve_row
     = [Int_cell 3, Str_cell ''Eve Moss'', Str_cell ''eve@test.com'', Int_cell 1,
        Str_cell ''2024-05-01T12:00:01Z'', Str_cell ''curl/8.5.0'', None_cell]"
    by (simp add: csv_record_def eve_row_def opt_cell_def)
  from e i t c show ?thesis
    by (simp only: order_by_ok_scan_order_sort simp_thms)
qed

subsection \<open>The notifier\<close>

lemma send_confirmation_email_swallows:
  "SMTP_PORT env = Inr port \<Longrightarrow> fst (send_confirmation_email env to_email full_name) = Inr ()"
  by (simp add: send_confirmation_email_def split: prod.splits sum.splits)

lemma send_test_email_ok_when_port_parses:
  "SMTP_PORT env = Inr port \<Longrightarrow> fst (send_test_email env to name) = Inr Ok_True"
  by (simp add: send_test_email_def send_confirmation_email_def
      split: prod.splits sum.splits option.splits exn.splits)

lemma send_test_email_bad_port:
  "send_test_email smtp_bad_port ''ada@test.com'' None
     = (Inl (HTTPException 500 ''invalid literal for int() with base 10''), [])"
  by (simp add: sample_defs notifier_defs text_defs)

text \<open>
  C1. The test endpoint answers \<open>{ok: true}\<close> when the connection is refused, and when
  the connection is made and the send is rejected: the notifier has caught the
  exception, and the handler's \<open>except\<close> branch with its 500 response is not reached.
\<close>

theorem test_email_reports_ok_on_failed_delivery:
  "send_test_email smtp_unreachable ''ada@test.com'' None = (Inr Ok_True, []) \<and>
   send_test_email smtp_rejecting ''ada@test.com'' None = (Inr Ok_True, [Connected])"
  by (simp add: sample_defs notifier_defs text_defs)

text \<open>
  C8. The response of a submission and the table it leaves are the same in every world
  of the notifier: whether the thread starts or not, and whatever the transport does.
\<close>

theorem notification_never_alters_submission:
  "fst (create_prejoin w1 utcnow d data req) = fst (create_prejoin w2 utcnow d data req) \<and>
   fst (snd (create_prejoin w1 utcnow d data req)) = fst (snd (create_prejoin w2 utcnow d data req))"
  by (simp add: create_prejoin_def split: sum.splits sql_error.splits)

theorem notification_never_alters_submission_witness:
  "fst (create_prejoin world_unreachable noon empty_db ada browser) = Inr Ok_True \<and>
   fst (create_prejoin world_no_thread noon empty_db ada browser) = Inr Ok_True \<and>
   fst (snd (create_prejoin world_unreachable noon empty_db ada browser)) = \<lparr>table_rows = [ada_row], seq = 1\<rparr> \<and>
   fst (snd (create_prejoin world_no_thread noon empty_db ada browser)) = \<lparr>table_rows = [ada_row], seq = 1\<rparr>"
proof -
  have "create_prejoin world_ok noon empty_db ada browser
     = (Inr Ok_True, \<lparr>table_rows = [ada_row], seq = 1\<rparr>,
        [Connected, Sent ''Ada@Test.com'' ''Ada Lovelace''])"
    by (simp add: sample_defs notifier_defs text_defs intake_defs)
  with notification_never_alters_submission [of world_unreachable noon empty_db ada browser world_ok]
       notification_never_alters_submission [of world_no_thread noon empty_db ada browser world_ok]
  show ?thesis by simp
qed

lemma notification_trace_depends_on_world:
  "snd (snd (create_prejoin world_ok noon empty_db ada browser))
     = [Connected, Sent ''Ada@Test.com'' ''Ada Lovelace''] \<and>
   snd (snd (create_prejoin world_unreachable noon empty_db ada browser)) = [] \<and>
   snd (snd (create_prejoin world_no_thread noon empty_db ada browser)) = []"
  by (simp add: sample_defs notifier_defs text_defs intake_defs)

end
